theory Spec2Isabelle
  imports Main "HOL-Library.Sublist"
begin

section \<open>Data model of \<open>src/decorators/transactional.ts\<close>\<close>

text \<open>
  The four isolation levels of the type \<open>IsolationLevel\<close> and the two propagation
  modes of \<open>TransactionalOptions\<close>. Both fields of the options are optional in the
  source, hence \<open>option\<close> here.
\<close>

datatype IsolationLevel =
    READ_UNCOMMITTED
  | READ_COMMITTED
  | REPEATABLE_READ
  | SERIALIZABLE

datatype Propagation = REQUIRED | REQUIRES_NEW

record TransactionalOptions =
  isolation :: "IsolationLevel option"
  propagation :: "Propagation option"

text \<open>
  An \<open>EntityManager\<close> is either the default manager of a DataSource (named by the
  reference of that DataSource) or the manager bound to the query runner of one
  transaction (named by the number of that transaction).
\<close>

datatype EntityManager = DefaultManager nat | TransactionManager nat

text \<open>
  A \<open>DataSource\<close> object: its reference (object identity), \<open>options.type\<close> and its
  default \<open>manager\<close>. Two distinct objects differ in their reference, so they are
  distinct values of this record.
\<close>

record DataSource =
  ds_ref :: nat
  ds_type :: string
  ds_manager :: EntityManager

record TransactionContextData =
  ctx_manager :: EntityManager
  ctx_dataSource :: DataSource

text \<open>
  JavaScript errors as values: \<open>new Error(message)\<close>, and the \<open>TypeError\<close> the
  runtime raises when a property of \<open>undefined\<close> is read.
\<close>

datatype Error = Error string | TypeError string

text \<open>
  The \<open>this\<close> of a decorated method. The wrapper reads \<open>(this as any).dataSource\<close>,
  which may be undefined. \<open>Target\<close> is the prototype the decorator was applied to; only
  \<open>target.constructor.name\<close> is read.
\<close>

record Service =
  dataSource :: "DataSource option"

record Target =
  constructor_name :: string

record Repository =
  repo_manager :: EntityManager
  repo_entity :: string

text \<open>What the storage backend is asked to do, in order.\<close>

datatype Event =
    Begin DataSource nat "IsolationLevel option"
  | Commit nat
  | Rollback nat
  | Saved EntityManager string

text \<open>
  The state a call chain runs in. \<open>transactionContexts\<close> is the module-level WeakMap
  from DataSource to its AsyncLocalStorage (named by a reference); \<open>next_als\<close> is the
  next unused AsyncLocalStorage reference. \<open>als_store\<close> gives, for each
  AsyncLocalStorage, the store visible to the executing call chain. \<open>next_tx\<close> numbers
  the transactions the backends begin and \<open>log\<close> records the backend events.
\<close>

record World =
  transactionContexts :: "DataSource \<rightharpoonup> nat"
  next_als :: nat
  als_store :: "nat \<Rightarrow> TransactionContextData option"
  next_tx :: nat
  log :: "Event list"

text \<open>
  An asynchronous method awaited by its caller: it runs in a state and either throws
  (\<open>Inl\<close>) or returns a value (\<open>Inr\<close>), leaving a new state.
\<close>

type_synonym 'a op = "World \<Rightarrow> (Error + 'a) \<times> World"

section \<open>The collaborators: AsyncLocalStorage and \<open>DataSource.transaction\<close>\<close>

text \<open>
  Modelled from the spec: \<open>AsyncLocalStorage.getStore\<close> of \<open>node:async_hooks\<close>, which
  is not part of the repository. Section 4.2: \<open>current()\<close> returns the frame visible at the
  point of the call in the executing call chain, or none.
\<close>

definition getStore :: "nat \<Rightarrow> World \<Rightarrow> TransactionContextData option" where
  "getStore context s = als_store s context"

text \<open>
  Modelled from the spec: \<open>AsyncLocalStorage.run\<close> of \<open>node:async_hooks\<close>, which is not
  part of the repository. Section 4.2: \<open>activate(frame, body)\<close> runs \<open>body\<close> with \<open>frame\<close>
  visible as current and restores the previously current frame (or none) when \<open>body\<close>
  completes, by success or by failure.
\<close>

definition als_run :: "nat \<Rightarrow> TransactionContextData \<Rightarrow> 'a op \<Rightarrow> 'a op" where
  "als_run context contextData body s =
     (let previous = als_store s context;
          (r, s') = body (s\<lparr>als_store := (als_store s)(context := Some contextData)\<rparr>)
      in (r, s'\<lparr>als_store := (als_store s')(context := previous)\<rparr>))"

text \<open>
  Modelled from the spec: \<open>DataSource.transaction\<close> of the typeorm library, which is
  not part of the repository. Sections 4.4 (step 4) and 6: the resource begins a
  transaction (optionally at an isolation level) and hands the scoped body an accessor bound
  to it; if the body completes normally the transaction commits and the result is returned;
  if the body fails the transaction rolls back and the same error is rethrown.
\<close>

definition transaction ::
  "DataSource \<Rightarrow> IsolationLevel option \<Rightarrow> (EntityManager \<Rightarrow> 'a op) \<Rightarrow> 'a op" where
  "transaction ds level runInTransaction s =
     (let t = next_tx s;
          (r, s') = runInTransaction (TransactionManager t)
                      (s\<lparr>next_tx := Suc t, log := log s @ [Begin ds t level]\<rparr>)
      in case r of
           Inr v \<Rightarrow> (Inr v, s'\<lparr>log := log s' @ [Commit t]\<rparr>)
         | Inl e \<Rightarrow> (Inl e, s'\<lparr>log := log s' @ [Rollback t]\<rparr>))"

section \<open>The functions of \<open>transactional.ts\<close>\<close>

definition getOrCreateTransactionContext :: "DataSource \<Rightarrow> World \<Rightarrow> nat \<times> World" where
  "getOrCreateTransactionContext ds s =
     (case transactionContexts s ds of
        Some context \<Rightarrow> (context, s)
      | None \<Rightarrow>
          (let context = next_als s
           in (context,
               s\<lparr>transactionContexts := (transactionContexts s)(ds \<mapsto> context),
                 next_als := Suc context,
                 als_store := (als_store s)(context := None)\<rparr>)))"

definition getSupportedIsolationLevel ::
  "DataSource \<Rightarrow> IsolationLevel option \<Rightarrow> IsolationLevel option" where
  "getSupportedIsolationLevel ds requestedLevel =
     (case requestedLevel of
        None \<Rightarrow> None
      | Some level \<Rightarrow>
          (let dbType = ds_type ds
           in if dbType = ''sqlite''
              then (if level = READ_UNCOMMITTED \<or> level = SERIALIZABLE
                    then Some level
                    else Some SERIALIZABLE)
              else Some level))"

definition config_message :: "Target \<Rightarrow> string" where
  "config_message target =
     ''DataSource not found in '' @ constructor_name target @
     ''. Make sure your service has a '' @ [CHR 0x27] @ ''dataSource'' @ [CHR 0x27] @
     '' property.''"

definition Transactional ::
  "TransactionalOptions \<Rightarrow> Target \<Rightarrow> Service \<Rightarrow> 'a op \<Rightarrow> 'a op" where
  "Transactional options target this originalMethod s =
     (case dataSource this of
        None \<Rightarrow> (Inl (Error (config_message target)), s)
      | Some ds \<Rightarrow>
          (let (context, s1) = getOrCreateTransactionContext ds s;
               existingContext = getStore context s1
           in if existingContext \<noteq> None \<and> propagation options \<noteq> Some REQUIRES_NEW
              then originalMethod s1
              else
                (let isolationLevel = getSupportedIsolationLevel ds (isolation options);
                     executeTransaction =
                       (\<lambda>manager. als_run context
                          \<lparr>ctx_manager = manager, ctx_dataSource = ds\<rparr> originalMethod)
                 in case isolationLevel of
                      Some level \<Rightarrow> transaction ds (Some level) executeTransaction s1
                    | None \<Rightarrow> transaction ds None executeTransaction s1)))"

definition getCurrentTransactionManager ::
  "DataSource option \<Rightarrow> World \<Rightarrow> EntityManager option \<times> World" where
  "getCurrentTransactionManager dsOpt s =
     (case dsOpt of
        None \<Rightarrow> (None, s)
      | Some ds \<Rightarrow>
          (let (context, s1) = getOrCreateTransactionContext ds s;
               contextData = getStore context s1
           in (case contextData of
                 Some d \<Rightarrow> (Some (ctx_manager d), s1)
               | None \<Rightarrow> (None, s1))))"

text \<open>
  \<open>BaseTransactionalService.getManager\<close> and \<open>getRepository\<close>. The constructor's type
  gives every such service a DataSource; on an object without one the read of
  \<open>this.dataSource.manager\<close> raises a TypeError.
\<close>

definition getManager :: "Service \<Rightarrow> EntityManager op" where
  "getManager this s =
     (let (manager, s1) = getCurrentTransactionManager (dataSource this) s
      in case manager of
           Some m \<Rightarrow> (Inr m, s1)
         | None \<Rightarrow>
             (case dataSource this of
                Some ds \<Rightarrow> (Inr (ds_manager ds), s1)
              | None \<Rightarrow> (Inl (TypeError ''Cannot read properties of undefined''), s1)))"

definition getRepository :: "Service \<Rightarrow> string \<Rightarrow> Repository op" where
  "getRepository this entity s =
     (case getManager this s of
        (Inl e, s1) \<Rightarrow> (Inl e, s1)
      | (Inr manager, s1) \<Rightarrow> (Inr \<lparr>repo_manager = manager, repo_entity = entity\<rparr>, s1))"

section \<open>Bodies of service methods\<close>

text \<open>
  The bodies of the service methods of the repository (\<open>createUser\<close>,
  \<open>createOrganization\<close>, \<open>signup\<close>, ...) are sequences of three kinds of awaited steps:
  saving an entity through \<open>this.getRepository(...)\<close>, throwing, and calling a method of
  some service that is wrapped by \<open>Transactional\<close>. A step that throws ends the body.
\<close>

datatype Stmt =
    Save string
  | Throw Error
  | Invoke TransactionalOptions Target Service "Stmt list"

definition save :: "Service \<Rightarrow> string \<Rightarrow> unit op" where
  "save this entity s =
     (case getRepository this entity s of
        (Inl e, s1) \<Rightarrow> (Inl e, s1)
      | (Inr repo, s1) \<Rightarrow> (Inr (), s1\<lparr>log := log s1 @ [Saved (repo_manager repo) entity]\<rparr>))"

definition andThen :: "unit op \<Rightarrow> unit op \<Rightarrow> unit op" where
  "andThen first second s =
     (case first s of
        (Inl e, s1) \<Rightarrow> (Inl e, s1)
      | (Inr _, s1) \<Rightarrow> second s1)"

fun exec :: "Service \<Rightarrow> Stmt \<Rightarrow> unit op"
  and execs :: "Service \<Rightarrow> Stmt list \<Rightarrow> unit op" where
  "exec this (Save entity) = save this entity"
| "exec this (Throw e) = (\<lambda>s. (Inl e, s))"
| "exec this (Invoke options target service body) =
     Transactional options target service (execs service body)"
| "execs this [] = (\<lambda>s. (Inr (), s))"
| "execs this (st # rest) = andThen (exec this st) (execs this rest)"


section \<open>The example services\<close>

text \<open>
  The services of the examples: \<open>OrganizationService.createOrganization\<close>,
  \<open>UserService.createUser\<close> and \<open>createUserWithRequiresNew\<close>,
  \<open>SignupService.performSignup\<close>, \<open>signup\<close> and \<open>signupWithSeparateTransactions\<close>, all
  on the sqlite DataSource of the tests. \<open>@Transactional()\<close> passes the empty options.
\<close>

definition sqlite_source :: DataSource where
  "sqlite_source = \<lparr>ds_ref = 0, ds_type = ''sqlite'', ds_manager = DefaultManager 0\<rparr>"

definition postgres_source :: DataSource where
  "postgres_source = \<lparr>ds_ref = 1, ds_type = ''postgres'', ds_manager = DefaultManager 1\<rparr>"

definition default_options :: TransactionalOptions where
  "default_options = \<lparr>isolation = None, propagation = None\<rparr>"

definition requires_new_options :: TransactionalOptions where
  "requires_new_options = \<lparr>isolation = None, propagation = Some REQUIRES_NEW\<rparr>"

definition sqlite_service :: Service where
  "sqlite_service = \<lparr>dataSource = Some sqlite_source\<rparr>"

definition postgres_service :: Service where
  "postgres_service = \<lparr>dataSource = Some postgres_source\<rparr>"

definition createOrganization :: Stmt where
  "createOrganization =
     Invoke default_options \<lparr>constructor_name = ''OrganizationService''\<rparr> sqlite_service
       [Save ''Organization'']"

definition createUser :: Stmt where
  "createUser =
     Invoke default_options \<lparr>constructor_name = ''UserService''\<rparr> sqlite_service [Save ''User'']"

definition createUserWithRequiresNew :: Stmt where
  "createUserWithRequiresNew =
     Invoke requires_new_options \<lparr>constructor_name = ''UserService''\<rparr> sqlite_service [createUser]"

definition performSignup :: "Stmt list" where
  "performSignup = [createOrganization, createUser, Save ''User'']"

definition signup :: "unit op" where
  "signup =
     Transactional default_options \<lparr>constructor_name = ''SignupService''\<rparr> sqlite_service
       (execs sqlite_service performSignup)"

definition signupWithSeparateTransactions :: "unit op" where
  "signupWithSeparateTransactions =
     Transactional default_options \<lparr>constructor_name = ''SignupService''\<rparr> sqlite_service
       (execs sqlite_service [createOrganization, createUserWithRequiresNew, Save ''User''])"

text \<open>
  The signup of the test "should rollback entire transaction when user creation fails":
  the organization is created, then the call that creates the user throws.
\<close>

definition failingSignup :: "Stmt list" where
  "failingSignup =
     [createOrganization,
      Invoke default_options \<lparr>constructor_name = ''UserService''\<rparr> sqlite_service
        [Throw (Error ''User creation failed'')]]"

text \<open>A method body that returns \<open>getCurrentTransactionManager(ds)\<close>.\<close>

definition lookupManager :: "DataSource \<Rightarrow> EntityManager option op" where
  "lookupManager ds s =
     (case getCurrentTransactionManager (Some ds) s of (manager, s1) \<Rightarrow> (Inr manager, s1))"

text \<open>
  The state of a fresh process, and the state in which the body of \<open>signup\<close> starts when
  \<open>signup\<close> is called in a fresh process: the sqlite DataSource has its context store,
  transaction 0 is open and its frame is active.
\<close>

definition initial_world :: World where
  "initial_world =
     \<lparr>transactionContexts = Map.empty, next_als = 0, als_store = (\<lambda>_. None),
      next_tx = 0, log = []\<rparr>"

definition inside_world :: World where
  "inside_world =
     \<lparr>transactionContexts = [sqlite_source \<mapsto> 0], next_als = 1,
      als_store = (\<lambda>_. None)(0 := Some \<lparr>ctx_manager = TransactionManager 0,
                                          ctx_dataSource = sqlite_source\<rparr>),
      next_tx = 1, log = [Begin sqlite_source 0 None]\<rparr>"

section \<open>Notions the statements use\<close>

text \<open>
  The strength order of the SQL isolation levels, weakest first. The source has no such
  order; it is what "weaker" and "stricter" mean for these four levels.
\<close>

fun level_rank :: "IsolationLevel \<Rightarrow> nat" where
  "level_rank READ_UNCOMMITTED = 0"
| "level_rank READ_COMMITTED = 1"
| "level_rank REPEATABLE_READ = 2"
| "level_rank SERIALIZABLE = 3"

text \<open>
  The frame active for a DataSource: the store of its AsyncLocalStorage, if the registry
  has one for it. Reading it changes nothing.
\<close>

definition current_frame :: "DataSource \<Rightarrow> World \<Rightarrow> TransactionContextData option" where
  "current_frame ds s =
     (case transactionContexts s ds of None \<Rightarrow> None | Some context \<Rightarrow> als_store s context)"

text \<open>
  The invariant of the module state. The WeakMap and the stores are private to the module,
  so only the functions above change them. Every registered AsyncLocalStorage has been
  allocated; two DataSources never share one; an AsyncLocalStorage not yet allocated holds
  nothing; the frame in the store of a DataSource names that DataSource; the manager of a
  frame belongs to a transaction that has begun.
\<close>

definition wellformed :: "World \<Rightarrow> bool" where
  "wellformed s \<longleftrightarrow>
     (\<forall>ds c. transactionContexts s ds = Some c \<longrightarrow> c < next_als s) \<and>
     (\<forall>a b c. transactionContexts s a = Some c \<longrightarrow>
        transactionContexts s b = Some c \<longrightarrow> a = b) \<and>
     (\<forall>c. next_als s \<le> c \<longrightarrow> als_store s c = None) \<and>
     (\<forall>ds c d. transactionContexts s ds = Some c \<longrightarrow> als_store s c = Some d \<longrightarrow>
        ctx_dataSource d = ds) \<and>
     (\<forall>c d t. als_store s c = Some d \<longrightarrow> ctx_manager d = TransactionManager t \<longrightarrow>
        t < next_tx s)"

text \<open>
  What a completed call leaves behind: registry entries stay, every store holds what it
  held before, counters do not go back and the log only grows.
\<close>

definition extends :: "World \<Rightarrow> World \<Rightarrow> bool" where
  "extends s s' \<longleftrightarrow>
     (\<forall>ds c. transactionContexts s ds = Some c \<longrightarrow> transactionContexts s' ds = Some c) \<and>
     als_store s' = als_store s \<and>
     next_als s \<le> next_als s' \<and>
     next_tx s \<le> next_tx s' \<and>
     prefix (log s) (log s')"

definition steady :: "'a op \<Rightarrow> bool" where
  "steady f \<longleftrightarrow> (\<forall>s. wellformed s \<longrightarrow> wellformed (snd (f s)) \<and> extends s (snd (f s)))"

text \<open>
  The state in which the wrapped method starts when the wrapper opens a transaction on
  \<open>ds\<close> whose context store is \<open>context\<close>, and the state the wrapper returns once the
  method has finished in \<open>s\<close>.
\<close>

definition enter :: "DataSource \<Rightarrow> IsolationLevel option \<Rightarrow> nat \<Rightarrow> World \<Rightarrow> World" where
  "enter ds level context s =
     s\<lparr>next_tx := Suc (next_tx s),
       log := log s @ [Begin ds (next_tx s) level],
       als_store := (als_store s)(context :=
         Some \<lparr>ctx_manager = TransactionManager (next_tx s), ctx_dataSource = ds\<rparr>)\<rparr>"

definition leave :: "nat \<Rightarrow> TransactionContextData option \<Rightarrow> Event \<Rightarrow> World \<Rightarrow> World" where
  "leave context previous outcome s =
     s\<lparr>als_store := (als_store s)(context := previous), log := log s @ [outcome]\<rparr>"

definition outcome_event :: "nat \<Rightarrow> (Error + 'a) \<Rightarrow> Event" where
  "outcome_event t r = (case r of Inl _ \<Rightarrow> Rollback t | Inr _ \<Rightarrow> Commit t)"

text \<open>
  A body all of whose wrapped calls, at any depth, are on the DataSource \<open>ds\<close> and do not
  ask for REQUIRES_NEW.
\<close>

fun joined :: "DataSource \<Rightarrow> Stmt \<Rightarrow> bool"
  and joined_all :: "DataSource \<Rightarrow> Stmt list \<Rightarrow> bool" where
  "joined ds (Save entity) = True"
| "joined ds (Throw e) = True"
| "joined ds (Invoke options target service body) =
     (dataSource service = Some ds \<and> propagation options \<noteq> Some REQUIRES_NEW \<and>
      joined_all ds body)"
| "joined_all ds [] = True"
| "joined_all ds (st # rest) = (joined ds st \<and> joined_all ds rest)"

text \<open>
  The entities a body saves, in order, up to its first throw, and the error thrown if
  any.
\<close>

fun effect :: "Stmt \<Rightarrow> string list \<times> Error option"
  and effects :: "Stmt list \<Rightarrow> string list \<times> Error option" where
  "effect (Save entity) = ([entity], None)"
| "effect (Throw e) = ([], Some e)"
| "effect (Invoke options target service body) = effects body"
| "effects [] = ([], None)"
| "effects (st # rest) =
     (case snd (effect st) of
        Some e \<Rightarrow> effect st
      | None \<Rightarrow> (fst (effect st) @ fst (effects rest), snd (effects rest)))"

definition result_of :: "Error option \<Rightarrow> Error + unit" where
  "result_of thrown = (case thrown of None \<Rightarrow> Inr () | Some e \<Rightarrow> Inl e)"

text \<open>The events that open or close a transaction.\<close>

definition is_boundary :: "Event \<Rightarrow> bool" where
  "is_boundary ev = (case ev of Saved _ _ \<Rightarrow> False | _ \<Rightarrow> True)"

section \<open>Properties of the module state\<close>

lemma extends_refl: "extends s s"
  by (simp add: extends_def)

lemma extends_trans: "extends a b \<Longrightarrow> extends b c \<Longrightarrow> extends a c"
  unfolding extends_def by (auto intro: prefix_order.trans)

lemma wellformed_initial: "wellformed initial_world"
  by (simp add: wellformed_def initial_world_def)

lemma getOrCreate_existing:
  "transactionContexts s ds = Some c \<Longrightarrow> getOrCreateTransactionContext ds s = (c, s)"
  by (simp add: getOrCreateTransactionContext_def)

lemma getOrCreate_registered:
  "getOrCreateTransactionContext ds s = (c, s1) \<Longrightarrow> transactionContexts s1 ds = Some c"
  by (auto simp: getOrCreateTransactionContext_def Let_def split: option.splits)

lemma getOrCreate_new:
  "transactionContexts s ds = None \<Longrightarrow>
   getOrCreateTransactionContext ds s =
     (next_als s,
      s\<lparr>transactionContexts := (transactionContexts s)(ds \<mapsto> next_als s),
        next_als := Suc (next_als s),
        als_store := (als_store s)(next_als s := None)\<rparr>)"
  by (simp add: getOrCreateTransactionContext_def Let_def)

lemma wellformed_fresh:
  "wellformed s \<Longrightarrow> transactionContexts s a = Some c \<Longrightarrow> c \<noteq> next_als s"
  unfolding wellformed_def by (metis less_irrefl)

lemma wellformed_register:
  assumes "wellformed s" and "transactionContexts s ds = None"
  shows "wellformed (s\<lparr>transactionContexts := (transactionContexts s)(ds \<mapsto> next_als s),
                      next_als := Suc (next_als s),
                      als_store := (als_store s)(next_als s := None)\<rparr>)"
proof -
  have fresh: "\<And>a c. transactionContexts s a = Some c \<Longrightarrow> c \<noteq> next_als s"
    using assms(1) by (rule wellformed_fresh)
  show ?thesis
    using assms fresh unfolding wellformed_def
    by (auto simp: less_Suc_eq)
qed

lemma getOrCreate_wellformed:
  "wellformed s \<Longrightarrow> getOrCreateTransactionContext ds s = (c, s1) \<Longrightarrow> wellformed s1"
  by (cases "transactionContexts s ds")
     (auto simp: getOrCreate_new getOrCreate_existing wellformed_register)

lemma getOrCreate_extends:
  assumes "wellformed s" and "getOrCreateTransactionContext ds s = (c, s1)"
  shows "extends s s1"
proof (cases "transactionContexts s ds")
  case None
  have "als_store s (next_als s) = None"
    using assms(1) unfolding wellformed_def by simp
  then have "(als_store s)(next_als s := None) = als_store s"
    by (simp add: fun_upd_idem)
  with None assms(2) show ?thesis
    by (auto simp: getOrCreate_new extends_def)
next
  case (Some c')
  with assms(2) show ?thesis
    by (simp add: getOrCreate_existing extends_refl)
qed

lemma transaction_run:
  "transaction ds level
     (\<lambda>manager. als_run c \<lparr>ctx_manager = manager, ctx_dataSource = ds\<rparr> f) s =
   (fst (f (enter ds level c s)),
    leave c (als_store s c) (outcome_event (next_tx s) (fst (f (enter ds level c s))))
      (snd (f (enter ds level c s))))"
  by (simp add: transaction_def als_run_def enter_def leave_def outcome_event_def Let_def
           split: prod.splits sum.splits)

lemma Transactional_join:
  assumes "dataSource this = Some ds" and "transactionContexts s ds = Some c"
    and "als_store s c = Some d" and "propagation options \<noteq> Some REQUIRES_NEW"
  shows "Transactional options target this f s = f s"
  using assms by (simp add: Transactional_def getOrCreate_existing getStore_def)

lemma Transactional_start_new:
  assumes "dataSource this = Some ds" and "getOrCreateTransactionContext ds s = (c, s1)"
    and "als_store s1 c = None \<or> propagation options = Some REQUIRES_NEW"
  shows "Transactional options target this f s =
           transaction ds (getSupportedIsolationLevel ds (isolation options))
             (\<lambda>manager. als_run c \<lparr>ctx_manager = manager, ctx_dataSource = ds\<rparr> f) s1"
  using assms by (auto simp: Transactional_def getStore_def Let_def split: option.splits)

lemma wellformed_allocated:
  "wellformed s \<Longrightarrow> transactionContexts s ds = Some c \<Longrightarrow> c < next_als s"
  unfolding wellformed_def by blast

lemma wellformed_enter:
  assumes "wellformed s" and "transactionContexts s ds = Some c"
  shows "wellformed (enter ds level c s)"
proof -
  have "c < next_als s"
    using assms by (rule wellformed_allocated)
  then have fresh: "\<And>k. next_als s \<le> k \<Longrightarrow> k \<noteq> c"
    by auto
  show ?thesis
    using assms fresh unfolding wellformed_def enter_def
    by (auto simp: less_Suc_eq)
qed

lemma wellformed_leave:
  assumes wf1: "wellformed s" and c: "transactionContexts s ds = Some c"
    and wf2: "wellformed s'" and ext: "extends (enter ds level c s) s'"
  shows "wellformed (leave c (als_store s c) ev s')"
    and "extends s (leave c (als_store s c) ev s')"
proof -
  have store: "als_store s' = (als_store s)(c :=
      Some \<lparr>ctx_manager = TransactionManager (next_tx s), ctx_dataSource = ds\<rparr>)"
    using ext by (simp add: extends_def enter_def)
  then have restored: "(als_store s')(c := als_store s c) = als_store s"
    by (simp add: fun_upd_idem)
  have reg: "\<And>a k. transactionContexts s a = Some k \<Longrightarrow> transactionContexts s' a = Some k"
    using ext by (simp add: extends_def enter_def)
  have als: "next_als s \<le> next_als s'" and tx: "next_tx s \<le> next_tx s'"
    and lg: "prefix (log s) (log s')"
    using ext by (auto simp: extends_def enter_def dest: append_prefixD)
  have c': "transactionContexts s' ds = Some c"
    using c by (rule reg)
  show "extends s (leave c (als_store s c) ev s')"
    using reg als tx lg restored by (simp add: extends_def leave_def prefix_order.trans)
  have same: "\<And>k. k \<noteq> c \<Longrightarrow> als_store s k = als_store s' k"
    by (simp add: store)
  have p1: "\<forall>a k. transactionContexts s' a = Some k \<longrightarrow> k < next_als s'"
    and p2: "\<forall>a b k. transactionContexts s' a = Some k \<longrightarrow>
               transactionContexts s' b = Some k \<longrightarrow> a = b"
    and p4: "\<forall>a k d. transactionContexts s' a = Some k \<longrightarrow> als_store s' k = Some d \<longrightarrow>
               ctx_dataSource d = a"
    using wf2 unfolding wellformed_def by blast+
  have q3: "\<forall>k. next_als s \<le> k \<longrightarrow> als_store s k = None"
    and q4: "\<forall>a k d. transactionContexts s a = Some k \<longrightarrow> als_store s k = Some d \<longrightarrow>
               ctx_dataSource d = a"
    and q5: "\<forall>k d t. als_store s k = Some d \<longrightarrow> ctx_manager d = TransactionManager t \<longrightarrow>
               t < next_tx s"
    using wf1 unfolding wellformed_def by blast+
  have r3: "\<forall>k. next_als s' \<le> k \<longrightarrow> als_store s k = None"
    using q3 als by auto
  have r4: "\<forall>a k d. transactionContexts s' a = Some k \<longrightarrow> als_store s k = Some d \<longrightarrow>
               ctx_dataSource d = a"
  proof (intro allI impI)
    fix a k d
    assume a: "transactionContexts s' a = Some k" and d: "als_store s k = Some d"
    show "ctx_dataSource d = a"
    proof (cases "k = c")
      case True
      with a c' p2 have "a = ds" by blast
      with True d c q4 show ?thesis by blast
    next
      case False
      with d same have "als_store s' k = Some d" by simp
      with a p4 show ?thesis by blast
    qed
  qed
  have r5: "\<forall>k d t. als_store s k = Some d \<longrightarrow> ctx_manager d = TransactionManager t \<longrightarrow>
               t < next_tx s'"
    using q5 tx by (meson less_le_trans)
  show "wellformed (leave c (als_store s c) ev s')"
    unfolding wellformed_def leave_def using p1 p2 r3 r4 r5 restored by simp
qed

lemma wellformed_log [simp]: "wellformed (s\<lparr>log := l\<rparr>) = wellformed s"
  by (simp add: wellformed_def)

lemma extends_log: "extends s s' \<Longrightarrow> extends s (s'\<lparr>log := log s' @ evs\<rparr>)"
  by (auto simp: extends_def intro: prefix_order.trans)

lemma getCurrentTransactionManager_state:
  "snd (getCurrentTransactionManager (Some ds) s) = snd (getOrCreateTransactionContext ds s)"
  by (simp add: getCurrentTransactionManager_def split: prod.splits option.splits)

lemma getManager_state:
  "snd (getManager this s) =
     (case dataSource this of None \<Rightarrow> s | Some ds \<Rightarrow> snd (getOrCreateTransactionContext ds s))"
  by (cases "dataSource this")
     (auto simp: getManager_def getCurrentTransactionManager_def
           split: prod.splits option.splits)

lemma steady_getManager: "steady (getManager this)"
  unfolding steady_def
  by (cases "dataSource this")
     (auto simp: getManager_state extends_refl
           intro: getOrCreate_wellformed getOrCreate_extends prod.collapse [symmetric])

lemma steady_throw: "steady (\<lambda>s. (Inl e, s))"
  by (simp add: steady_def extends_refl)

lemma steady_return: "steady (\<lambda>s. (Inr v, s))"
  by (simp add: steady_def extends_refl)

lemma steady_save: "steady (save this entity)"
proof -
  have "snd (save this entity s) = snd (getManager this s) \<or>
        snd (save this entity s) =
          (snd (getManager this s))\<lparr>log := log (snd (getManager this s)) @
             [Saved (projr (fst (getManager this s))) entity]\<rparr>" for s
    by (auto simp: save_def getRepository_def split: prod.splits sum.splits)
  then show ?thesis
    using steady_getManager [of this] unfolding steady_def
    by (metis extends_log wellformed_log)
qed

lemma steady_andThen:
  assumes "steady f" and "steady g"
  shows "steady (andThen f g)"
  unfolding steady_def
proof (intro allI impI)
  fix s assume s: "wellformed s"
  obtain r s1 where f: "f s = (r, s1)" by (cases "f s")
  with assms(1) s have s1: "wellformed s1" "extends s s1"
    by (auto simp: steady_def dest: spec [of _ s])
  show "wellformed (snd (andThen f g s)) \<and> extends s (snd (andThen f g s))"
  proof (cases r)
    case (Inl e)
    with f s1 show ?thesis by (simp add: andThen_def)
  next
    case (Inr v)
    with f have "andThen f g s = g s1" by (simp add: andThen_def)
    moreover from assms(2) s1 have "wellformed (snd (g s1))" "extends s1 (snd (g s1))"
      by (auto simp: steady_def)
    ultimately show ?thesis using s1 by (auto intro: extends_trans)
  qed
qed

lemma steady_Transactional:
  assumes "steady f"
  shows "steady (Transactional options target this f)"
  unfolding steady_def
proof (intro allI impI)
  fix s assume s: "wellformed s"
  let ?T = "Transactional options target this f"
  show "wellformed (snd (?T s)) \<and> extends s (snd (?T s))"
  proof (cases "dataSource this")
    case None
    with s show ?thesis by (simp add: Transactional_def extends_refl)
  next
    case (Some ds)
    obtain c s1 where g: "getOrCreateTransactionContext ds s = (c, s1)"
      by (cases "getOrCreateTransactionContext ds s")
    from s g have s1: "wellformed s1" "extends s s1"
      by (auto intro: getOrCreate_wellformed getOrCreate_extends)
    from g have c: "transactionContexts s1 ds = Some c"
      by (rule getOrCreate_registered)
    show ?thesis
    proof (cases "als_store s1 c \<noteq> None \<and> propagation options \<noteq> Some REQUIRES_NEW")
      case True
      with Some g have "?T s = f s1"
        by (simp add: Transactional_def getStore_def)
      moreover from assms s1 have "wellformed (snd (f s1))" "extends s1 (snd (f s1))"
        by (auto simp: steady_def)
      ultimately show ?thesis using s1 by (auto intro: extends_trans)
    next
      case False
      let ?level = "getSupportedIsolationLevel ds (isolation options)"
      let ?in = "enter ds ?level c s1"
      from False have "als_store s1 c = None \<or> propagation options = Some REQUIRES_NEW"
        by auto
      with Some g have T: "snd (?T s) =
          leave c (als_store s1 c) (outcome_event (next_tx s1) (fst (f ?in))) (snd (f ?in))"
        by (simp add: Transactional_start_new transaction_run)
      from s1 c have "wellformed ?in" by (simp add: wellformed_enter)
      with assms have "wellformed (snd (f ?in))" "extends ?in (snd (f ?in))"
        by (auto simp: steady_def)
      with s1(1) c have "wellformed (snd (?T s))" "extends s1 (snd (?T s))"
        unfolding T by (auto intro: wellformed_leave)
      with s1 show ?thesis by (auto intro: extends_trans)
    qed
  qed
qed

lemma steady_exec: "steady (exec this st)"
  and steady_execs: "steady (execs this body)"
  by (induction this st and this body rule: exec_execs.induct)
     (simp_all add: steady_save steady_throw steady_return steady_andThen steady_Transactional)

lemma getManager_active:
  assumes "dataSource this = Some ds" and "transactionContexts s ds = Some c"
    and "als_store s c = Some d"
  shows "getManager this s = (Inr (ctx_manager d), s)"
  using assms
  by (simp add: getManager_def getCurrentTransactionManager_def getOrCreate_existing
        getStore_def)

lemma save_active:
  assumes "dataSource this = Some ds" and "transactionContexts s ds = Some c"
    and "als_store s c = Some d"
  shows "save this entity s = (Inr (), s\<lparr>log := log s @ [Saved (ctx_manager d) entity]\<rparr>)"
  using getManager_active [OF assms] by (simp add: save_def getRepository_def)

lemma joined_exec:
  "dataSource this = Some ds \<Longrightarrow> joined ds st \<Longrightarrow>
   transactionContexts s ds = Some c \<Longrightarrow> als_store s c = Some d \<Longrightarrow>
   exec this st s =
     (result_of (snd (effect st)),
      s\<lparr>log := log s @ map (Saved (ctx_manager d)) (fst (effect st))\<rparr>)"
  and joined_execs:
  "dataSource this = Some ds \<Longrightarrow> joined_all ds body \<Longrightarrow>
   transactionContexts s ds = Some c \<Longrightarrow> als_store s c = Some d \<Longrightarrow>
   execs this body s =
     (result_of (snd (effects body)),
      s\<lparr>log := log s @ map (Saved (ctx_manager d)) (fst (effects body))\<rparr>)"
proof (induction this st and this body arbitrary: s and s rule: exec_execs.induct)
  case (1 this entity)
  then show ?case by (simp add: save_active result_of_def)
next
  case (2 this e)
  then show ?case by (simp add: result_of_def)
next
  case (3 this options target service body)
  then show ?case by (simp add: Transactional_join)
next
  case (4 this)
  then show ?case by (simp add: result_of_def)
next
  case (5 this st rest)
  let ?s1 = "s\<lparr>log := log s @ map (Saved (ctx_manager d)) (fst (effect st))\<rparr>"
  from 5 have st: "exec this st s = (result_of (snd (effect st)), ?s1)"
    by simp
  show ?case
  proof (cases "snd (effect st)")
    case None
    from 5 have "execs this rest ?s1 =
        (result_of (snd (effects rest)),
         ?s1\<lparr>log := log ?s1 @ map (Saved (ctx_manager d)) (fst (effects rest))\<rparr>)"
      by simp
    with st None show ?thesis
      by (simp add: andThen_def result_of_def split: prod.splits)
  next
    case (Some e)
    with st show ?thesis
      by (simp add: andThen_def result_of_def split: prod.splits)
  qed
qed

lemma getOrCreate_store:
  "getOrCreateTransactionContext ds s = (c, s1) \<Longrightarrow> als_store s1 c = current_frame ds s"
  by (cases "transactionContexts s ds")
     (auto simp: getOrCreate_new getOrCreate_existing current_frame_def)

lemma getCurrentTransactionManager_result:
  "fst (getCurrentTransactionManager (Some ds) s) = map_option ctx_manager (current_frame ds s)"
proof -
  obtain c s1 where g: "getOrCreateTransactionContext ds s = (c, s1)"
    by (cases "getOrCreateTransactionContext ds s")
  then show ?thesis
    using getOrCreate_store [OF g]
    by (simp add: getCurrentTransactionManager_def getStore_def split: option.splits)
qed

lemma getOrCreate_next_tx:
  "next_tx (snd (getOrCreateTransactionContext ds s)) = next_tx s"
  and getOrCreate_log: "log (snd (getOrCreateTransactionContext ds s)) = log s"
  by (cases "transactionContexts s ds"; simp add: getOrCreate_new getOrCreate_existing)+

lemma Transactional_new_run:
  assumes "dataSource this = Some ds" and "getOrCreateTransactionContext ds s = (c, s1)"
    and "current_frame ds s = None \<or> propagation options = Some REQUIRES_NEW"
  shows "Transactional options target this f s =
     (fst (f (enter ds (getSupportedIsolationLevel ds (isolation options)) c s1)),
      leave c (current_frame ds s)
        (outcome_event (next_tx s)
           (fst (f (enter ds (getSupportedIsolationLevel ds (isolation options)) c s1))))
        (snd (f (enter ds (getSupportedIsolationLevel ds (isolation options)) c s1))))"
proof -
  have "als_store s1 c = current_frame ds s"
    using assms(2) by (rule getOrCreate_store)
  moreover have "next_tx s1 = next_tx s"
    using getOrCreate_next_tx [of ds s] assms(2) by simp
  ultimately show ?thesis
    using assms by (simp add: Transactional_start_new transaction_run)
qed

lemma new_joined_log:
  assumes svc: "dataSource this = Some ds"
    and start: "current_frame ds s = None \<or> propagation options = Some REQUIRES_NEW"
    and body: "joined_all ds body"
  shows "fst (Transactional options target this (execs this body) s) =
       result_of (snd (effects body)) \<and>
     log (snd (Transactional options target this (execs this body) s)) =
       log s @ [Begin ds (next_tx s) (getSupportedIsolationLevel ds (isolation options))] @
       map (Saved (TransactionManager (next_tx s))) (fst (effects body)) @
       [outcome_event (next_tx s) (result_of (snd (effects body)))]"
proof -
  let ?level = "getSupportedIsolationLevel ds (isolation options)"
  obtain c s1 where g: "getOrCreateTransactionContext ds s = (c, s1)"
    by (cases "getOrCreateTransactionContext ds s")
  have tx: "next_tx s1 = next_tx s" and lg: "log s1 = log s"
    using getOrCreate_next_tx [of ds s] getOrCreate_log [of ds s] g by simp_all
  have reg: "transactionContexts (enter ds ?level c s1) ds = Some c"
    using getOrCreate_registered [OF g] by (simp add: enter_def)
  have act: "als_store (enter ds ?level c s1) c =
      Some \<lparr>ctx_manager = TransactionManager (next_tx s), ctx_dataSource = ds\<rparr>"
    by (simp add: enter_def tx)
  have run: "execs this body (enter ds ?level c s1) =
     (result_of (snd (effects body)),
      (enter ds ?level c s1)\<lparr>log := log (enter ds ?level c s1) @
         map (Saved (TransactionManager (next_tx s))) (fst (effects body))\<rparr>)"
    using joined_execs [OF svc body reg act] by simp
  show ?thesis
    unfolding Transactional_new_run [OF svc g start] run
    by (simp add: leave_def enter_def tx lg)
qed

lemma filter_boundary_saved [simp]: "filter is_boundary (map (Saved m) es) = []"
  by (induction es) (simp_all add: is_boundary_def)

lemma wellformed_frame:
  "wellformed s \<Longrightarrow> current_frame ds s = Some d \<Longrightarrow> ctx_dataSource d = ds"
  unfolding wellformed_def current_frame_def
  by (auto split: option.splits)

lemma current_frame_extends:
  assumes "extends s s'" and "transactionContexts s ds = Some c"
  shows "current_frame ds s' = als_store s c"
  using assms by (simp add: extends_def current_frame_def)

lemma wellformed_distinct:
  "wellformed s \<Longrightarrow> transactionContexts s a = Some ca \<Longrightarrow>
   transactionContexts s b = Some cb \<Longrightarrow> a \<noteq> b \<Longrightarrow> ca \<noteq> cb"
  unfolding wellformed_def by blast

lemma current_frame_getOrCreate:
  assumes "wellformed s"
  shows "current_frame b (snd (getOrCreateTransactionContext a s)) = current_frame b s"
proof (cases "transactionContexts s a")
  case None
  have none: "als_store s (next_als s) = None"
    using assms unfolding wellformed_def by simp
  show ?thesis
  proof (cases "b = a")
    case True
    with None show ?thesis
      by (simp add: getOrCreate_new current_frame_def)
  next
    case False
    with None none show ?thesis
      by (auto simp: getOrCreate_new current_frame_def split: option.splits)
  qed
next
  case (Some c)
  then show ?thesis by (simp add: getOrCreate_existing)
qed

lemma current_frame_enter_other:
  assumes "wellformed s" and "transactionContexts s a = Some c" and "a \<noteq> b"
  shows "current_frame b (enter a level c s) = current_frame b s"
proof (cases "transactionContexts s b")
  case None
  then show ?thesis by (simp add: current_frame_def enter_def)
next
  case (Some cb)
  with assms have "c \<noteq> cb" by (auto dest: wellformed_distinct)
  with Some show ?thesis by (simp add: current_frame_def enter_def)
qed

lemma wellformed_inside: "wellformed inside_world"
  by (auto simp: wellformed_def inside_world_def split: if_splits)

text \<open>Every state a body reaches from a fresh process satisfies the invariant.\<close>

lemma wellformed_reachable: "wellformed (snd (execs this body initial_world))"
  using steady_execs [of this body] wellformed_initial by (simp add: steady_def)

text \<open>The equations that evaluate the examples.\<close>

lemmas example_defs = default_options_def requires_new_options_def sqlite_service_def
  createOrganization_def createUser_def createUserWithRequiresNew_def performSignup_def
  sqlite_source_def postgres_source_def initial_world_def

lemmas run_defs = Transactional_def getOrCreateTransactionContext_def getStore_def
  getSupportedIsolationLevel_def transaction_def als_run_def andThen_def save_def
  getRepository_def getManager_def getCurrentTransactionManager_def Let_def

section \<open>Join correctness\<close>

text \<open>
  C1. Take an invocation of a wrapped method that starts a new transaction: no frame is
  active for its DataSource, or its propagation is REQUIRES_NEW. Let its body be any tree of
  saves and of wrapped calls on the same DataSource that do not ask for REQUIRES_NEW,
  however many and however deep, and let the invocation return normally (it returns what
  its body returns). Then the events it adds to the log are one Begin, the saves of the body
  and of all nested calls, each through the manager of that one transaction, and one
  Commit: the nested calls open and close nothing.
\<close>

theorem join_correctness:
  assumes "dataSource this = Some ds"
    and "current_frame ds s = None \<or> propagation options = Some REQUIRES_NEW"
    and "joined_all ds body"
    and "fst (Transactional options target this (execs this body) s) = Inr ()"
  shows "log (snd (Transactional options target this (execs this body) s)) =
           log s @ [Begin ds (next_tx s) (getSupportedIsolationLevel ds (isolation options))] @
           map (Saved (TransactionManager (next_tx s))) (fst (effects body)) @
           [Commit (next_tx s)] \<and>
         filter is_boundary
           (drop (length (log s))
              (log (snd (Transactional options target this (execs this body) s)))) =
           [Begin ds (next_tx s) (getSupportedIsolationLevel ds (isolation options)),
            Commit (next_tx s)]"
proof -
  note run = new_joined_log [OF assms(1,2,3), where target = target]
  from run assms(4) have "snd (effects body) = None"
    by (cases "snd (effects body)") (simp_all add: result_of_def)
  with run show ?thesis
    by (simp add: result_of_def outcome_event_def is_boundary_def)
qed

theorem join_correctness_witness:
  "log (snd (Transactional default_options \<lparr>constructor_name = ''SignupService''\<rparr> sqlite_service
               (execs sqlite_service performSignup) initial_world)) =
     [Begin sqlite_source 0 None, Saved (TransactionManager 0) ''Organization'',
      Saved (TransactionManager 0) ''User'', Saved (TransactionManager 0) ''User'', Commit 0] \<and>
   filter is_boundary
     (log (snd (Transactional default_options \<lparr>constructor_name = ''SignupService''\<rparr> sqlite_service
                  (execs sqlite_service performSignup) initial_world))) =
     [Begin sqlite_source 0 None, Commit 0]"
proof -
  have h1: "dataSource sqlite_service = Some sqlite_source"
    by (simp add: sqlite_service_def)
  have h2: "current_frame sqlite_source initial_world = None \<or>
            propagation default_options = Some REQUIRES_NEW"
    by (simp add: current_frame_def initial_world_def)
  have h3: "joined_all sqlite_source performSignup"
    by (simp add: performSignup_def createOrganization_def createUser_def sqlite_service_def
          default_options_def)
  have h4: "fst (Transactional default_options \<lparr>constructor_name = ''SignupService''\<rparr> sqlite_service
                   (execs sqlite_service performSignup) initial_world) = Inr ()"
    by (simp add: example_defs run_defs)
  have saved: "fst (effects performSignup) = [''Organization'', ''User'', ''User'']"
    by (simp add: performSignup_def createOrganization_def createUser_def)
  have start: "log initial_world = []" "next_tx initial_world = 0"
    by (simp_all add: initial_world_def)
  have level: "getSupportedIsolationLevel sqlite_source (isolation default_options) = None"
    by (simp add: getSupportedIsolationLevel_def default_options_def)
  show ?thesis
    using join_correctness [OF h1 h2 h3 h4]
    by (simp add: saved start level is_boundary_def)
qed

section \<open>Operation errors\<close>

text \<open>
  C2. For a service with a DataSource. (1) When an invocation starts a new transaction and
  the wrapped method, run once in the entered state, throws \<open>e\<close>, the invocation throws the
  same \<open>e\<close> and the only event it adds after the method's own is the Rollback of the
  transaction it opened. (2) A joined call is the wrapped method itself: it adds no event of
  its own and its error reaches the caller as it is. (3) When the body of a start-new
  invocation is a tree of saves, throws and joined calls and the invocation fails, the log
  gains the Begin of that invocation, the saves made before the throw, all through the
  manager of that one transaction, and its Rollback: the one transaction takes all the
  nested work with it, and no other transaction is opened or closed.
\<close>

theorem operation_error_rolls_back:
  assumes "dataSource this = Some ds"
  shows "(current_frame ds s = None \<or> propagation options = Some REQUIRES_NEW \<longrightarrow>
          (\<forall>e. fst (f (enter ds (getSupportedIsolationLevel ds (isolation options))
                        (fst (getOrCreateTransactionContext ds s))
                        (snd (getOrCreateTransactionContext ds s)))) = Inl e \<longrightarrow>
             fst (Transactional options target this f s) = Inl e \<and>
             log (snd (Transactional options target this f s)) =
               log (snd (f (enter ds (getSupportedIsolationLevel ds (isolation options))
                              (fst (getOrCreateTransactionContext ds s))
                              (snd (getOrCreateTransactionContext ds s))))) @
               [Rollback (next_tx s)])) \<and>
         (current_frame ds s \<noteq> None \<and> propagation options \<noteq> Some REQUIRES_NEW \<longrightarrow>
            Transactional options target this f s = f s) \<and>
         ((current_frame ds s = None \<or> propagation options = Some REQUIRES_NEW) \<and>
          joined_all ds body \<and>
          fst (Transactional options target this (execs this body) s) = Inl e' \<longrightarrow>
            log (snd (Transactional options target this (execs this body) s)) =
              log s @
              [Begin ds (next_tx s) (getSupportedIsolationLevel ds (isolation options))] @
              map (Saved (TransactionManager (next_tx s))) (fst (effects body)) @
              [Rollback (next_tx s)] \<and>
            filter is_boundary
              (drop (length (log s))
                 (log (snd (Transactional options target this (execs this body) s)))) =
              [Begin ds (next_tx s) (getSupportedIsolationLevel ds (isolation options)),
               Rollback (next_tx s)])"
proof (intro conjI impI allI)
  fix e
  let ?level = "getSupportedIsolationLevel ds (isolation options)"
  let ?c = "fst (getOrCreateTransactionContext ds s)"
  let ?s1 = "snd (getOrCreateTransactionContext ds s)"
  assume start: "current_frame ds s = None \<or> propagation options = Some REQUIRES_NEW"
    and fails: "fst (f (enter ds ?level ?c ?s1)) = Inl e"
  have g: "getOrCreateTransactionContext ds s = (?c, ?s1)" by simp
  note run = Transactional_new_run [OF assms g start, where target = target and f = f]
  show "fst (Transactional options target this f s) = Inl e"
    unfolding run using fails by simp
  show "log (snd (Transactional options target this f s)) =
          log (snd (f (enter ds ?level ?c ?s1))) @ [Rollback (next_tx s)]"
    unfolding run using fails by (simp add: leave_def outcome_event_def)
next
  assume j: "current_frame ds s \<noteq> None \<and> propagation options \<noteq> Some REQUIRES_NEW"
  then obtain c d where "transactionContexts s ds = Some c" "als_store s c = Some d"
    by (auto simp: current_frame_def split: option.splits)
  with assms j show "Transactional options target this f s = f s"
    by (simp add: Transactional_join)
next
  assume a: "(current_frame ds s = None \<or> propagation options = Some REQUIRES_NEW) \<and>
             joined_all ds body \<and>
             fst (Transactional options target this (execs this body) s) = Inl e'"
  then have start: "current_frame ds s = None \<or> propagation options = Some REQUIRES_NEW"
    and body: "joined_all ds body" by simp_all
  note run = new_joined_log [OF assms start body, where target = target]
  from run a have "snd (effects body) = Some e'"
    by (cases "snd (effects body)") (simp_all add: result_of_def)
  with run have lg: "log (snd (Transactional options target this (execs this body) s)) =
      log s @ [Begin ds (next_tx s) (getSupportedIsolationLevel ds (isolation options))] @
      map (Saved (TransactionManager (next_tx s))) (fst (effects body)) @
      [Rollback (next_tx s)]"
    by (simp add: result_of_def outcome_event_def)
  then show "log (snd (Transactional options target this (execs this body) s)) =
      log s @ [Begin ds (next_tx s) (getSupportedIsolationLevel ds (isolation options))] @
      map (Saved (TransactionManager (next_tx s))) (fst (effects body)) @
      [Rollback (next_tx s)]" .
  from lg show "filter is_boundary
      (drop (length (log s))
         (log (snd (Transactional options target this (execs this body) s)))) =
      [Begin ds (next_tx s) (getSupportedIsolationLevel ds (isolation options)),
       Rollback (next_tx s)]"
    by (simp add: is_boundary_def)
qed

theorem operation_error_rolls_back_witness:
  "fst (Transactional default_options \<lparr>constructor_name = ''SignupService''\<rparr> sqlite_service
          (execs sqlite_service failingSignup) initial_world) =
     Inl (Error ''User creation failed'') \<and>
   log (snd (Transactional default_options \<lparr>constructor_name = ''SignupService''\<rparr>
               sqlite_service (execs sqlite_service failingSignup) initial_world)) =
     [Begin sqlite_source 0 None, Saved (TransactionManager 0) ''Organization'', Rollback 0] \<and>
   Transactional default_options \<lparr>constructor_name = ''UserService''\<rparr> sqlite_service
     (execs sqlite_service [Throw (Error ''User creation failed'')]) inside_world =
     (Inl (Error ''User creation failed''), inside_world)"
proof -
  let ?target = "\<lparr>constructor_name = ''SignupService''\<rparr>"
  let ?e = "Error ''User creation failed''"
  have h1: "dataSource sqlite_service = Some sqlite_source"
    by (simp add: sqlite_service_def)
  have start: "current_frame sqlite_source initial_world = None \<or>
               propagation default_options = Some REQUIRES_NEW"
    by (simp add: current_frame_def initial_world_def)
  have fails: "fst (execs sqlite_service failingSignup
      (enter sqlite_source (getSupportedIsolationLevel sqlite_source (isolation default_options))
         (fst (getOrCreateTransactionContext sqlite_source initial_world))
         (snd (getOrCreateTransactionContext sqlite_source initial_world)))) = Inl ?e"
    by (simp add: failingSignup_def enter_def example_defs run_defs)
  have body: "joined_all sqlite_source failingSignup"
    by (simp add: failingSignup_def createOrganization_def sqlite_service_def
          default_options_def)
  have active: "current_frame sqlite_source inside_world \<noteq> None \<and>
                propagation default_options \<noteq> Some REQUIRES_NEW"
    by (simp add: current_frame_def inside_world_def default_options_def)
  have saved: "fst (effects failingSignup) = [''Organization'']"
    by (simp add: failingSignup_def createOrganization_def)
  have fresh: "log initial_world = []" "next_tx initial_world = 0"
    by (simp_all add: initial_world_def)
  have level: "getSupportedIsolationLevel sqlite_source (isolation default_options) = None"
    by (simp add: getSupportedIsolationLevel_def default_options_def)
  note new = operation_error_rolls_back [OF h1, of initial_world default_options
      "execs sqlite_service failingSignup" ?target failingSignup ?e]
  note join = operation_error_rolls_back [OF h1, of inside_world default_options
      "execs sqlite_service [Throw ?e]" "\<lparr>constructor_name = ''UserService''\<rparr>" "[]" ?e]
  from new start fails have r: "fst (Transactional default_options ?target sqlite_service
      (execs sqlite_service failingSignup) initial_world) = Inl ?e"
    by blast
  with new start body have "log (snd (Transactional default_options ?target sqlite_service
      (execs sqlite_service failingSignup) initial_world)) =
      log initial_world @
      [Begin sqlite_source (next_tx initial_world)
         (getSupportedIsolationLevel sqlite_source (isolation default_options))] @
      map (Saved (TransactionManager (next_tx initial_world))) (fst (effects failingSignup)) @
      [Rollback (next_tx initial_world)]"
    by blast
  then have l: "log (snd (Transactional default_options ?target sqlite_service
      (execs sqlite_service failingSignup) initial_world)) =
      [Begin sqlite_source 0 None, Saved (TransactionManager 0) ''Organization'', Rollback 0]"
    by (simp add: saved fresh level)
  from join active have "Transactional default_options \<lparr>constructor_name = ''UserService''\<rparr>
      sqlite_service (execs sqlite_service [Throw ?e]) inside_world =
      execs sqlite_service [Throw ?e] inside_world"
    by blast
  then have j: "Transactional default_options \<lparr>constructor_name = ''UserService''\<rparr>
      sqlite_service (execs sqlite_service [Throw ?e]) inside_world = (Inl ?e, inside_world)"
    by (simp add: andThen_def)
  from r l j show ?thesis by simp
qed

section \<open>The isolation negotiator\<close>

text \<open>
  C3. For every DataSource and every requested isolation level,
  \<open>getSupportedIsolationLevel\<close> returns none when no level is requested; the requested
  level unchanged when the backend is not sqlite; for sqlite the requested level unchanged
  if it is READ UNCOMMITTED or SERIALIZABLE, and SERIALIZABLE for any other level. It is a
  total function with no error result, and a returned level is never weaker than the one
  requested.
\<close>

theorem getSupportedIsolationLevel_rules:
  "(requested = None \<longrightarrow> getSupportedIsolationLevel ds requested = None) \<and>
   (\<forall>level. requested = Some level \<longrightarrow>
      (ds_type ds \<noteq> ''sqlite'' \<longrightarrow>
         getSupportedIsolationLevel ds requested = Some level) \<and>
      (ds_type ds = ''sqlite'' \<and> (level = READ_UNCOMMITTED \<or> level = SERIALIZABLE) \<longrightarrow>
         getSupportedIsolationLevel ds requested = Some level) \<and>
      (ds_type ds = ''sqlite'' \<and> level \<noteq> READ_UNCOMMITTED \<and> level \<noteq> SERIALIZABLE \<longrightarrow>
         getSupportedIsolationLevel ds requested = Some SERIALIZABLE) \<and>
      (\<exists>effective. getSupportedIsolationLevel ds requested = Some effective \<and>
         level_rank level \<le> level_rank effective))"
proof (cases requested)
  case None
  then show ?thesis by (simp add: getSupportedIsolationLevel_def)
next
  case (Some level)
  have "level_rank level \<le> level_rank SERIALIZABLE"
    by (cases level) simp_all
  with Some show ?thesis
    by (simp add: getSupportedIsolationLevel_def)
qed

theorem getSupportedIsolationLevel_rules_witness:
  "getSupportedIsolationLevel sqlite_source (Some READ_COMMITTED) = Some SERIALIZABLE \<and>
   getSupportedIsolationLevel postgres_source (Some READ_COMMITTED) = Some READ_COMMITTED \<and>
   getSupportedIsolationLevel sqlite_source None = None"
  using getSupportedIsolationLevel_rules [of "Some READ_COMMITTED" sqlite_source]
        getSupportedIsolationLevel_rules [of "Some READ_COMMITTED" postgres_source]
        getSupportedIsolationLevel_rules [of None sqlite_source]
  by (simp add: sqlite_source_def postgres_source_def)

section \<open>Join or start new\<close>

text \<open>
  C4. In a state that satisfies the invariant, for a service with a DataSource, the wrapper
  is the wrapped method itself, run in the unchanged state (no frame is created and no
  transaction is opened), exactly when a frame is active for the DataSource, that frame
  names the DataSource, and the propagation is not REQUIRES_NEW. In every other case it
  runs the method inside \<open>transaction\<close>, with a new frame activated on the context store of
  the DataSource.
\<close>

theorem join_decision:
  assumes "wellformed s" and "dataSource this = Some ds"
  shows "Transactional options target this f s =
     (if (\<exists>d. current_frame ds s = Some d \<and> ctx_dataSource d = ds) \<and>
         propagation options \<noteq> Some REQUIRES_NEW
      then f s
      else transaction ds (getSupportedIsolationLevel ds (isolation options))
             (\<lambda>manager. als_run (fst (getOrCreateTransactionContext ds s))
                \<lparr>ctx_manager = manager, ctx_dataSource = ds\<rparr> f)
             (snd (getOrCreateTransactionContext ds s)))"
proof (cases "current_frame ds s \<noteq> None \<and> propagation options \<noteq> Some REQUIRES_NEW")
  case True
  then obtain d where d: "current_frame ds s = Some d" by auto
  with assms(1) have "ctx_dataSource d = ds" by (rule wellformed_frame)
  moreover from d obtain c where "transactionContexts s ds = Some c" "als_store s c = Some d"
    by (auto simp: current_frame_def split: option.splits)
  ultimately show ?thesis
    using True d assms(2) by (simp add: Transactional_join)
next
  case False
  have g: "getOrCreateTransactionContext ds s =
      (fst (getOrCreateTransactionContext ds s), snd (getOrCreateTransactionContext ds s))"
    by simp
  from False have start: "als_store (snd (getOrCreateTransactionContext ds s))
      (fst (getOrCreateTransactionContext ds s)) = None \<or>
      propagation options = Some REQUIRES_NEW"
    using getOrCreate_store [OF g] by auto
  from False have neg: "\<not> ((\<exists>d. current_frame ds s = Some d \<and> ctx_dataSource d = ds) \<and>
      propagation options \<noteq> Some REQUIRES_NEW)" by auto
  show ?thesis
    unfolding if_not_P [OF neg]
    by (rule Transactional_start_new [OF assms(2) g start])
qed

theorem join_decision_witness:
  "Transactional default_options \<lparr>constructor_name = ''UserService''\<rparr> sqlite_service
     (execs sqlite_service [Save ''User'']) inside_world =
     execs sqlite_service [Save ''User''] inside_world \<and>
   Transactional requires_new_options \<lparr>constructor_name = ''UserService''\<rparr> sqlite_service
     (execs sqlite_service [Save ''User'']) inside_world =
     transaction sqlite_source None
       (\<lambda>manager. als_run 0 \<lparr>ctx_manager = manager, ctx_dataSource = sqlite_source\<rparr>
          (execs sqlite_service [Save ''User''])) inside_world \<and>
   Transactional default_options \<lparr>constructor_name = ''UserService''\<rparr> sqlite_service
     (execs sqlite_service [Save ''User'']) initial_world =
     transaction sqlite_source None
       (\<lambda>manager. als_run 0 \<lparr>ctx_manager = manager, ctx_dataSource = sqlite_source\<rparr>
          (execs sqlite_service [Save ''User'']))
       (snd (getOrCreateTransactionContext sqlite_source initial_world))"
proof -
  have h: "dataSource sqlite_service = Some sqlite_source"
    by (simp add: sqlite_service_def)
  have frame: "current_frame sqlite_source inside_world =
      Some \<lparr>ctx_manager = TransactionManager 0, ctx_dataSource = sqlite_source\<rparr>"
    by (simp add: current_frame_def inside_world_def)
  have none: "current_frame sqlite_source initial_world = None"
    by (simp add: current_frame_def initial_world_def)
  have reg: "getOrCreateTransactionContext sqlite_source inside_world = (0, inside_world)"
    by (simp add: getOrCreateTransactionContext_def inside_world_def)
  have new: "fst (getOrCreateTransactionContext sqlite_source initial_world) = 0"
    by (simp add: getOrCreateTransactionContext_def initial_world_def)
  show ?thesis
    using join_decision [OF wellformed_inside h, of default_options
            "\<lparr>constructor_name = ''UserService''\<rparr>" "execs sqlite_service [Save ''User'']"]
          join_decision [OF wellformed_inside h, of requires_new_options
            "\<lparr>constructor_name = ''UserService''\<rparr>" "execs sqlite_service [Save ''User'']"]
          join_decision [OF wellformed_initial h, of default_options
            "\<lparr>constructor_name = ''UserService''\<rparr>" "execs sqlite_service [Save ''User'']"]
    by (simp add: frame none reg new default_options_def requires_new_options_def
          getSupportedIsolationLevel_def)
qed

section \<open>REQUIRES_NEW\<close>

text \<open>
  C5. Let a frame \<open>outer\<close> be active for the DataSource of the service and let the
  propagation be REQUIRES_NEW. Then the body runs in the entered state, where the active
  frame is a new one whose manager is bound to the transaction just begun and differs from
  the manager of \<open>outer\<close>; that frame stays the active one after every completed prefix of
  the body; the invocation closes only the transaction it opened; and when it returns,
  normally or with an error, the active frame is \<open>outer\<close> again, every store holds what it
  held before, and \<open>getCurrentTransactionManager\<close> returns the manager of \<open>outer\<close>.
\<close>

theorem requires_new_restores_outer_frame:
  assumes wf: "wellformed s" and svc: "dataSource this = Some ds"
    and c: "transactionContexts s ds = Some c" and outer: "als_store s c = Some outer"
    and new: "propagation options = Some REQUIRES_NEW"
  shows "(let inner = \<lparr>ctx_manager = TransactionManager (next_tx s), ctx_dataSource = ds\<rparr>;
              s_in = enter ds (getSupportedIsolationLevel ds (isolation options)) c s;
              result = Transactional options target this (execs this body) s
          in fst result = fst (execs this body s_in) \<and>
             current_frame ds s_in = Some inner \<and>
             ctx_manager outer \<noteq> ctx_manager inner \<and>
             (\<forall>done rest. body = done @ rest \<longrightarrow>
                current_frame ds (snd (execs this done s_in)) = Some inner) \<and>
             log (snd result) =
               log (snd (execs this body s_in)) @ [outcome_event (next_tx s) (fst result)] \<and>
             current_frame ds (snd result) = Some outer \<and>
             als_store (snd result) = als_store s \<and>
             fst (getCurrentTransactionManager (Some ds) (snd result)) =
               Some (ctx_manager outer))"
proof -
  let ?level = "getSupportedIsolationLevel ds (isolation options)"
  let ?inner = "\<lparr>ctx_manager = TransactionManager (next_tx s), ctx_dataSource = ds\<rparr>"
  let ?in = "enter ds ?level c s"
  let ?T = "Transactional options target this (execs this body) s"
  have g: "getOrCreateTransactionContext ds s = (c, s)"
    using c by (rule getOrCreate_existing)
  have frame: "current_frame ds s = Some outer"
    using c outer by (simp add: current_frame_def)
  have run: "?T = (fst (execs this body ?in),
      leave c (Some outer) (outcome_event (next_tx s) (fst (execs this body ?in)))
        (snd (execs this body ?in)))"
    using Transactional_new_run [OF svc g, where options = options and target = target
        and f = "execs this body"] new frame by simp
  have wf_in: "wellformed ?in"
    using wf c by (rule wellformed_enter)
  have c_in: "transactionContexts ?in ds = Some c" and store_in: "als_store ?in c = Some ?inner"
    using c by (simp_all add: enter_def)
  have during: "current_frame ds (snd (execs this b ?in)) = Some ?inner" for b
  proof -
    have "extends ?in (snd (execs this b ?in))"
      using steady_execs [of this b] wf_in by (simp add: steady_def)
    then show ?thesis
      using c_in store_in by (simp add: current_frame_extends)
  qed
  have fresh: "ctx_manager outer \<noteq> TransactionManager (next_tx s)"
    using wf outer unfolding wellformed_def by (metis less_irrefl)
  have ext: "extends s (snd ?T)" and wf_T: "wellformed (snd ?T)"
    using steady_Transactional [OF steady_execs, of options target this this body] wf
    by (simp_all add: steady_def)
  have after: "current_frame ds (snd ?T) = Some outer"
    using current_frame_extends [OF ext c] outer by simp
  have stores: "als_store (snd ?T) = als_store s"
    using ext by (simp add: extends_def)
  have lg: "log (snd ?T) =
      log (snd (execs this body ?in)) @ [outcome_event (next_tx s) (fst ?T)]"
    unfolding run by (simp add: leave_def)
  have res: "fst ?T = fst (execs this body ?in)"
    unfolding run by simp
  have cur_in: "current_frame ds ?in = Some ?inner"
    using c_in store_in by (simp add: current_frame_def)
  show ?thesis
    unfolding Let_def
    using res cur_in fresh during lg after stores
    by (simp add: getCurrentTransactionManager_result)
qed

theorem requires_new_restores_outer_frame_witness:
  "current_frame sqlite_source
     (snd (Transactional requires_new_options \<lparr>constructor_name = ''UserService''\<rparr> sqlite_service
             (execs sqlite_service [createUser]) inside_world)) =
     Some \<lparr>ctx_manager = TransactionManager 0, ctx_dataSource = sqlite_source\<rparr> \<and>
   current_frame sqlite_source
     (snd (Transactional requires_new_options \<lparr>constructor_name = ''UserService''\<rparr> sqlite_service
             (execs sqlite_service [Throw (Error ''User creation failed'')]) inside_world)) =
     Some \<lparr>ctx_manager = TransactionManager 0, ctx_dataSource = sqlite_source\<rparr> \<and>
   current_frame sqlite_source (enter sqlite_source None 0 inside_world) =
     Some \<lparr>ctx_manager = TransactionManager 1, ctx_dataSource = sqlite_source\<rparr>"
proof -
  let ?outer = "\<lparr>ctx_manager = TransactionManager 0, ctx_dataSource = sqlite_source\<rparr>"
  have h: "dataSource sqlite_service = Some sqlite_source"
    by (simp add: sqlite_service_def)
  have c: "transactionContexts inside_world sqlite_source = Some 0"
    by (simp add: inside_world_def)
  have outer: "als_store inside_world 0 = Some ?outer"
    by (simp add: inside_world_def)
  have new: "propagation requires_new_options = Some REQUIRES_NEW"
    by (simp add: requires_new_options_def)
  have level: "getSupportedIsolationLevel sqlite_source (isolation requires_new_options) = None"
    by (simp add: getSupportedIsolationLevel_def requires_new_options_def)
  have tx: "next_tx inside_world = 1"
    by (simp add: inside_world_def)
  show ?thesis
    using requires_new_restores_outer_frame [OF wellformed_inside h c outer new,
            of "\<lparr>constructor_name = ''UserService''\<rparr>" "[createUser]"]
          requires_new_restores_outer_frame [OF wellformed_inside h c outer new,
            of "\<lparr>constructor_name = ''UserService''\<rparr>"
               "[Throw (Error ''User creation failed'')]"]
    by (simp add: Let_def level tx)
qed

section \<open>Independence of DataSources\<close>

text \<open>
  C6. For distinct DataSources \<open>A\<close> and \<open>B\<close>, in a state that satisfies the invariant: the
  context stores \<open>getOrCreateTransactionContext\<close> gives them are distinct;
  \<open>getCurrentTransactionManager(B)\<close> returns the same in the state where a frame has been
  activated for \<open>A\<close> as before; and called as the body of any method wrapped on \<open>A\<close>,
  whether that joins or starts a transaction, it returns what it returns outside.
\<close>

theorem distinct_sources_independent:
  assumes wf: "wellformed s" and ab: "A \<noteq> B" and svc: "dataSource this = Some A"
  shows "fst (getOrCreateTransactionContext A s) \<noteq>
           fst (getOrCreateTransactionContext B (snd (getOrCreateTransactionContext A s))) \<and>
         fst (getCurrentTransactionManager (Some B)
                (enter A level (fst (getOrCreateTransactionContext A s))
                   (snd (getOrCreateTransactionContext A s)))) =
           fst (getCurrentTransactionManager (Some B) s) \<and>
         fst (Transactional options target this (lookupManager B) s) =
           Inr (fst (getCurrentTransactionManager (Some B) s))"
proof (intro conjI)
  let ?ca = "fst (getOrCreateTransactionContext A s)"
  let ?s1 = "snd (getOrCreateTransactionContext A s)"
  let ?cb = "fst (getOrCreateTransactionContext B ?s1)"
  let ?s2 = "snd (getOrCreateTransactionContext B ?s1)"
  have gA: "getOrCreateTransactionContext A s = (?ca, ?s1)" by simp
  have gB: "getOrCreateTransactionContext B ?s1 = (?cb, ?s2)" by simp
  have wf1: "wellformed ?s1" using wf gA by (rule getOrCreate_wellformed)
  have wf2: "wellformed ?s2" using wf1 gB by (rule getOrCreate_wellformed)
  have regA: "transactionContexts ?s1 A = Some ?ca" using gA by (rule getOrCreate_registered)
  have "extends ?s1 ?s2" using wf1 gB by (rule getOrCreate_extends)
  with regA have a2: "transactionContexts ?s2 A = Some ?ca" by (simp add: extends_def)
  have b2: "transactionContexts ?s2 B = Some ?cb" using gB by (rule getOrCreate_registered)
  show "?ca \<noteq> ?cb" using wf2 a2 b2 ab by (rule wellformed_distinct)
  have other: "current_frame B (enter A lv ?ca ?s1) = current_frame B s" for lv
    using current_frame_enter_other [OF wf1 regA ab] current_frame_getOrCreate [OF wf]
    by simp
  show "fst (getCurrentTransactionManager (Some B) (enter A level ?ca ?s1)) =
        fst (getCurrentTransactionManager (Some B) s)"
    by (simp add: getCurrentTransactionManager_result other)
  have look: "fst (lookupManager B t) = Inr (map_option ctx_manager (current_frame B t))" for t
    using getCurrentTransactionManager_result [of B t]
    by (cases "getCurrentTransactionManager (Some B) t") (simp add: lookupManager_def)
  show "fst (Transactional options target this (lookupManager B) s) =
        Inr (fst (getCurrentTransactionManager (Some B) s))"
  proof (cases "current_frame A s = None \<or> propagation options = Some REQUIRES_NEW")
    case True
    show ?thesis
      unfolding Transactional_new_run [OF svc gA True]
      by (simp add: look other getCurrentTransactionManager_result)
  next
    case False
    then obtain c d where "transactionContexts s A = Some c" "als_store s c = Some d"
      by (auto simp: current_frame_def split: option.splits)
    with False svc have "Transactional options target this (lookupManager B) s = lookupManager B s"
      by (simp add: Transactional_join)
    then show ?thesis
      by (simp add: look getCurrentTransactionManager_result)
  qed
qed

theorem distinct_sources_independent_witness:
  "fst (getOrCreateTransactionContext postgres_source inside_world) \<noteq>
     fst (getOrCreateTransactionContext sqlite_source
            (snd (getOrCreateTransactionContext postgres_source inside_world))) \<and>
   fst (Transactional default_options \<lparr>constructor_name = ''ReportService''\<rparr>
          postgres_service (lookupManager sqlite_source) inside_world) =
     Inr (Some (TransactionManager 0))"
proof -
  have ne: "postgres_source \<noteq> sqlite_source"
    by (simp add: postgres_source_def sqlite_source_def)
  have h: "dataSource postgres_service = Some postgres_source"
    by (simp add: postgres_service_def)
  have m: "fst (getCurrentTransactionManager (Some sqlite_source) inside_world) =
      Some (TransactionManager 0)"
    by (simp add: getCurrentTransactionManager_result current_frame_def inside_world_def)
  show ?thesis
    using distinct_sources_independent [OF wellformed_inside ne h,
            of None default_options "\<lparr>constructor_name = ''ReportService''\<rparr>"]
    by (simp add: m)
qed

section \<open>The accessor resolver\<close>

text \<open>
  C7, as stated, fails: \<open>getManager\<close> is not free of side effects. Called in a fresh
  process it registers a context store for the DataSource of the service, so the state
  after the call is not the state before it.
\<close>

theorem getManager_registers_context:
  "snd (getManager sqlite_service initial_world) \<noteq> initial_world"
proof
  assume "snd (getManager sqlite_service initial_world) = initial_world"
  then have "next_als (snd (getManager sqlite_service initial_world)) =
             next_als initial_world" by simp
  then show False
    by (simp add: getManager_state getOrCreate_new initial_world_def sqlite_service_def)
qed

text \<open>
  C7, amended. For a service with a DataSource, \<open>getManager\<close> never fails and returns the
  manager of the frame active for that DataSource, or the default manager of the DataSource
  when none is active; \<open>getRepository\<close> returns the repository of that manager. The only
  change to the state is that a DataSource without a context store gets an empty one; the
  log and the transaction counter stay, and under the invariant every store and the frame
  active for every DataSource stay as they were.
\<close>

theorem getManager_resolution:
  assumes svc: "dataSource this = Some ds"
  shows "getManager this s =
           (Inr (case current_frame ds s of
                   Some frame \<Rightarrow> ctx_manager frame
                 | None \<Rightarrow> ds_manager ds),
            snd (getOrCreateTransactionContext ds s)) \<and>
         getRepository this entity s =
           (Inr \<lparr>repo_manager =
                   (case current_frame ds s of
                      Some frame \<Rightarrow> ctx_manager frame
                    | None \<Rightarrow> ds_manager ds),
                 repo_entity = entity\<rparr>,
            snd (getOrCreateTransactionContext ds s)) \<and>
         snd (getOrCreateTransactionContext ds s) =
           (if transactionContexts s ds = None
            then s\<lparr>transactionContexts := (transactionContexts s)(ds \<mapsto> next_als s),
                   next_als := Suc (next_als s),
                   als_store := (als_store s)(next_als s := None)\<rparr>
            else s) \<and>
         log (snd (getManager this s)) = log s \<and>
         next_tx (snd (getManager this s)) = next_tx s \<and>
         (wellformed s \<longrightarrow>
            wellformed (snd (getManager this s)) \<and>
            als_store (snd (getManager this s)) = als_store s \<and>
            (\<forall>other. current_frame other (snd (getManager this s)) = current_frame other s))"
proof -
  let ?m = "case current_frame ds s of Some frame \<Rightarrow> ctx_manager frame | None \<Rightarrow> ds_manager ds"
  have res: "fst (getCurrentTransactionManager (Some ds) s) =
      map_option ctx_manager (current_frame ds s)"
    by (rule getCurrentTransactionManager_result)
  have st: "snd (getCurrentTransactionManager (Some ds) s) =
      snd (getOrCreateTransactionContext ds s)"
    by (rule getCurrentTransactionManager_state)
  have gm: "getManager this s = (Inr ?m, snd (getOrCreateTransactionContext ds s))"
    using res st svc
    by (cases "getCurrentTransactionManager (Some ds) s"; cases "current_frame ds s")
       (simp_all add: getManager_def)
  have reg: "snd (getOrCreateTransactionContext ds s) =
      (if transactionContexts s ds = None
       then s\<lparr>transactionContexts := (transactionContexts s)(ds \<mapsto> next_als s),
              next_als := Suc (next_als s),
              als_store := (als_store s)(next_als s := None)\<rparr>
       else s)"
    by (cases "transactionContexts s ds") (simp_all add: getOrCreate_new getOrCreate_existing)
  have wfp: "wellformed (snd (getOrCreateTransactionContext ds s)) \<and>
      als_store (snd (getOrCreateTransactionContext ds s)) = als_store s" if "wellformed s"
  proof -
    obtain c s1 where g: "getOrCreateTransactionContext ds s = (c, s1)"
      by (cases "getOrCreateTransactionContext ds s")
    from that g have "wellformed s1" and "extends s s1"
      by (auto intro: getOrCreate_wellformed getOrCreate_extends)
    with g show ?thesis by (simp add: extends_def)
  qed
  have repo: "getRepository this entity s =
      (Inr \<lparr>repo_manager = ?m, repo_entity = entity\<rparr>,
       snd (getOrCreateTransactionContext ds s))"
    by (simp add: getRepository_def gm)
  have lg: "log (snd (getManager this s)) = log s"
    and tx: "next_tx (snd (getManager this s)) = next_tx s"
    by (simp_all add: gm getOrCreate_log getOrCreate_next_tx)
  have frames: "wellformed s \<longrightarrow>
      wellformed (snd (getManager this s)) \<and>
      als_store (snd (getManager this s)) = als_store s \<and>
      (\<forall>other. current_frame other (snd (getManager this s)) = current_frame other s)"
    by (simp add: gm wfp current_frame_getOrCreate)
  from gm repo reg lg tx frames show ?thesis
    by (intro conjI)
qed

theorem getManager_resolution_witness:
  "getManager sqlite_service inside_world = (Inr (TransactionManager 0), inside_world) \<and>
   fst (getManager sqlite_service initial_world) = Inr (DefaultManager 0) \<and>
   fst (getRepository sqlite_service ''User'' inside_world) =
     Inr \<lparr>repo_manager = TransactionManager 0, repo_entity = ''User''\<rparr>"
proof -
  have h: "dataSource sqlite_service = Some sqlite_source"
    by (simp add: sqlite_service_def)
  have frame: "current_frame sqlite_source inside_world =
      Some \<lparr>ctx_manager = TransactionManager 0, ctx_dataSource = sqlite_source\<rparr>"
    by (simp add: current_frame_def inside_world_def)
  have none: "current_frame sqlite_source initial_world = None"
    by (simp add: current_frame_def initial_world_def)
  have reg: "transactionContexts inside_world sqlite_source \<noteq> None"
    by (simp add: inside_world_def)
  have dm: "ds_manager sqlite_source = DefaultManager 0"
    by (simp add: sqlite_source_def)
  show ?thesis
    using getManager_resolution [OF h, of inside_world "''User''"]
          getManager_resolution [OF h, of initial_world "''User''"]
    by (simp add: frame none reg dm)
qed

section \<open>Configuration error\<close>

text \<open>
  C9. When the \<open>dataSource\<close> property of the service instance is absent, the wrapper
  throws the configuration error at once: the state is left as it was (no context store is
  looked up or created, no transaction begins), the outcome does not depend on the wrapped
  method (it is not run, and nothing is retried), and the message carries
  \<open>target.constructor.name\<close>.
\<close>

theorem Transactional_without_dataSource:
  assumes "dataSource this = None"
  shows "Transactional options target this originalMethod s =
           (Inl (Error (''DataSource not found in '' @ constructor_name target @
                        ''. Make sure your service has a '' @ [CHR 0x27] @ ''dataSource'' @
                        [CHR 0x27] @ '' property.'')), s)"
  using assms by (simp add: Transactional_def config_message_def)

theorem Transactional_without_dataSource_witness:
  "Transactional \<lparr>isolation = None, propagation = None\<rparr>
     \<lparr>constructor_name = ''UserService''\<rparr> \<lparr>dataSource = None\<rparr>
     (\<lambda>s. (Inr (), s\<lparr>log := log s @ [Saved (DefaultManager 0) ''user'']\<rparr>)) initial_world =
   (Inl (Error (''DataSource not found in UserService. Make sure your service has a '' @
                [CHR 0x27] @ ''dataSource'' @ [CHR 0x27] @ '' property.'')), initial_world)"
  using Transactional_without_dataSource
          [of "\<lparr>dataSource = None\<rparr>" "\<lparr>isolation = None, propagation = None\<rparr>"
              "\<lparr>constructor_name = ''UserService''\<rparr>"
              "\<lambda>s. (Inr (), s\<lparr>log := log s @ [Saved (DefaultManager 0) ''user'']\<rparr>)"
              initial_world]
  by simp

section \<open>Lookup without a DataSource\<close>

text \<open>
  C10. \<open>getCurrentTransactionManager\<close> called without a DataSource returns null and
  leaves the state untouched, whatever frames are active: no context store is created or
  read.
\<close>

theorem getCurrentTransactionManager_without_dataSource:
  "getCurrentTransactionManager None s = (None, s)"
  by (simp add: getCurrentTransactionManager_def)

end
